theory Spec2Isabelle
  imports Main
begin

section \<open>Transport resolver: connection URIs\<close>

subsection \<open>The regular expression behind \<open>regURI\<close>\<close>

text \<open>
  \<open>regURI\<close> is compiled from \<^verbatim>\<open>^(tcp://|ws://)?([^/:]+):([1-9][0-9]+)$\<close>.
  The pattern uses literals, two kinds of character class (a negated set and a range),
  a greedy one-or-more repetition of a class, sequencing, alternation, an optional part
  and numbered capture groups. Go's \<open>regexp\<close> package picks the match a backtracking
  engine finds first (leftmost-first), so the matcher below returns every way a pattern
  can match a prefix of the input, most preferred first, each with the text captured by
  the groups and the input left over.
\<close>

datatype cclass = NoneOf string | Between char char

fun in_class :: "cclass \<Rightarrow> char \<Rightarrow> bool" where
  "in_class (NoneOf cs) c = (c \<notin> set cs)"
| "in_class (Between lo hi) c =
     ((of_char lo :: nat) \<le> of_char c \<and> (of_char c :: nat) \<le> of_char hi)"

datatype regex =
    Lit string
  | OneOf cclass
  | Plus cclass
  | Seq regex regex
  | Alt regex regex
  | Opt regex
  | Group nat regex

fun rmatch :: "regex \<Rightarrow> string \<Rightarrow> ((nat \<times> string) list \<times> string) list" where
  "rmatch (Lit l) s = (if take (length l) s = l then [([], drop (length l) s)] else [])"
| "rmatch (OneOf k) s =
     (case s of [] \<Rightarrow> [] | c # cs \<Rightarrow> if in_class k c then [([], cs)] else [])"
| "rmatch (Plus k) s =
     map (\<lambda>n. ([], drop n s)) (rev [1 ..< Suc (length (takeWhile (in_class k) s))])"
| "rmatch (Seq a b) s =
     concat (map (\<lambda>(g, t). map (\<lambda>(h, u). (g @ h, u)) (rmatch b t)) (rmatch a s))"
| "rmatch (Alt a b) s = rmatch a s @ rmatch b s"
| "rmatch (Opt a) s = rmatch a s @ [([], s)]"
| "rmatch (Group i a) s =
     map (\<lambda>(g, t). ((i, take (length s - length t) s) # g, t)) (rmatch a s)"

text \<open>
  \<open>FindStringSubmatch\<close> for a pattern written between \<^verbatim>\<open>^\<close> and \<^verbatim>\<open>$\<close>: the match
  starts at the first character and must use up the whole input. The result is \<open>None\<close>
  (Go's nil slice) when nothing matches, and otherwise the matched text followed by the
  text of each group, the empty string for a group that took no part in the match.
\<close>

definition submatch :: "(nat \<times> string) list \<Rightarrow> nat \<Rightarrow> string" where
  "submatch g i = (case map_of g i of None \<Rightarrow> [] | Some v \<Rightarrow> v)"

definition FindStringSubmatch :: "regex \<Rightarrow> nat \<Rightarrow> string \<Rightarrow> string list option" where
  "FindStringSubmatch re ngroups s =
     (case filter (\<lambda>(g, t). t = []) (rmatch re s) of
        [] \<Rightarrow> None
      | (g, t) # _ \<Rightarrow> Some (s # map (submatch g) [1 ..< Suc ngroups]))"

definition regURI_body :: regex where
  "regURI_body =
     Seq (Opt (Group 1 (Alt (Lit ''tcp://'') (Lit ''ws://''))))
    (Seq (Group 2 (Plus (NoneOf ''/:'')))
    (Seq (Lit '':'')
         (Group 3 (Seq (OneOf (Between CHR ''1'' CHR ''9''))
                       (Plus (Between CHR ''0'' CHR ''9''))))))"

definition regURI :: "string \<Rightarrow> string list option" where
  "regURI = FindStringSubmatch regURI_body 3"

subsection \<open>\<open>strconv.Atoi\<close>\<close>

text \<open>
  The standard library's \<open>Atoi\<close> on a platform with 64-bit \<open>int\<close>: an optional sign
  and decimal digits. The second component is \<open>True\<close> when the conversion succeeded
  and \<open>False\<close> when an error was returned; on a syntax error the value is 0, out of
  range it is the nearest bound.
\<close>

definition is_digit :: "char \<Rightarrow> bool" where
  "is_digit c = in_class (Between CHR ''0'' CHR ''9'') c"

definition digit_val :: "char \<Rightarrow> int" where
  "digit_val c = int (of_char c) - 48"

definition digits_val :: "string \<Rightarrow> int" where
  "digits_val ds = foldl (\<lambda>acc c. acc * 10 + digit_val c) 0 ds"

definition Atoi :: "string \<Rightarrow> int \<times> bool" where
  "Atoi s =
     (let (neg, ds) = (case s of
                         c # r \<Rightarrow> if c = CHR ''+'' then (False, r)
                                  else if c = CHR ''-'' then (True, r)
                                  else (False, s)
                       | [] \<Rightarrow> (False, s))
      in if ds = [] \<or> \<not> list_all is_digit ds then (0, False)
         else let v = digits_val ds
              in if neg then (if v > 2 ^ 63 then (- (2 ^ 63), False) else (- v, True))
                 else (if v > 2 ^ 63 - 1 then (2 ^ 63 - 1, False) else (v, True)))"

subsection \<open>\<open>ParseURI\<close>\<close>

text \<open>
  The type \<open>protocol\<close> is an \<open>int8\<close> with the two named values 1 and 2 (0 is left
  unnamed); \<open>ParseURI\<close> only ever builds the named ones. The error of \<open>ParseURI\<close> is
  one of two formatted messages, each carrying the offending text.
\<close>

datatype protocol = protoTCP | protoWebsocket

record URI =
  proto :: protocol
  host :: string
  port :: int

datatype uri_error = InvalidURI string | UnsupportedProtocol string

definition ParseURI :: "string \<Rightarrow> uri_error + URI" where
  "ParseURI uri =
     (case regURI uri of
        None \<Rightarrow> Inl (InvalidURI uri)
      | Some mat \<Rightarrow>
          (let proto = mat ! 1;
               host = mat ! 2;
               port = fst (Atoi (mat ! 3))
           in if proto = ''tcp://'' \<or> proto = ''''
              then Inr \<lparr>proto = protoTCP, host = host, port = port\<rparr>
              else if proto = ''ws://''
              then Inr \<lparr>proto = protoWebsocket, host = host, port = port\<rparr>
              else Inl (UnsupportedProtocol proto)))"

text \<open>
  Whether a colon directly followed by the character \<open>c\<close> occurs in a string; used to
  reason about where the colons of an accepted URI can be.
\<close>

fun colon_then :: "char \<Rightarrow> string \<Rightarrow> bool" where
  "colon_then c [] = False"
| "colon_then c (x # r) =
     ((x = CHR '':'' \<and> (case r of [] \<Rightarrow> False | y # _ \<Rightarrow> y = c)) \<or> colon_then c r)"

section \<open>Sockets\<close>

subsection \<open>Payloads, errors, results and the observable world\<close>

datatype payload = Payload (pdata: string) (pmetadata: "string option")

type_synonym publisher = "payload list"

text \<open>
  Modelled from the spec: the two lease-denial conditions \<open>errLeaseExpired\<close> and
  \<open>errLeaseExhausted\<close> (the \<open>leaser\<close> type is defined elsewhere in the package), the
  error an underlying close may report, and the error \<open>tryRecover\<close> makes of a
  recovered fault. The five \<open>errUnsupported...\<close> values are the package-level variables
  of the source, with their texts.
\<close>

datatype error =
    errUnsupportedMetadataPush
  | errUnsupportedFireAndForget
  | errUnsupportedRequestResponse
  | errUnsupportedRequestStream
  | errUnsupportedRequestChannel
  | errLeaseExpired
  | errLeaseExhausted
  | TransportError string
  | Recovered string

fun error_text :: "error \<Rightarrow> string" where
  "error_text errUnsupportedMetadataPush = ''unsupported METADATA_PUSH''"
| "error_text errUnsupportedFireAndForget = ''unsupported FIRE_AND_FORGET''"
| "error_text errUnsupportedRequestResponse = ''unsupported REQUEST_RESPONSE''"
| "error_text errUnsupportedRequestStream = ''unsupported REQUEST_STREAM''"
| "error_text errUnsupportedRequestChannel = ''unsupported REQUEST_CHANNEL''"
| "error_text errLeaseExpired = ''lease expired''"
| "error_text errLeaseExhausted = ''lease exhausted''"
| "error_text (TransportError m) = m"
| "error_text (Recovered m) = m"

text \<open>
  Modelled from the spec: the result types \<open>mono.Mono\<close> and \<open>flux.Flux\<close> (packages
  \<open>rx/mono\<close> and \<open>rx/flux\<close>), of which this layer only builds already-failed
  instances (\<open>mono.Error\<close>, \<open>flux.Error\<close>) and passes the others through.
\<close>

datatype mono = MonoError error | MonoJust "payload option"

datatype flux = FluxError error | FluxItems "payload list"

text \<open>
  Modelled from the spec: the logging sink (package \<open>logger\<close>) and the calls that reach
  the underlying duplex socket, observed as one list of events in order of occurrence.
  The application's own state, which handlers and close hooks act on, is the type
  parameter \<open>'w\<close>.
\<close>

datatype event =
    Errorf string
  | Warnf string
  | DuplexFireAndForget payload
  | DuplexMetadataPush payload
  | DuplexRequestResponse payload
  | DuplexRequestStream payload
  | DuplexRequestChannel publisher
  | DuplexClose

record 'w world =
  events :: "event list"
  app :: 'w

definition emit :: "event \<Rightarrow> 'w world \<Rightarrow> 'w world" where
  "emit e w = w\<lparr>events := events w @ [e]\<rparr>"

text \<open>
  A call of a user-supplied function either returns or raises a runtime fault (a Go panic,
  with the value given to it); either way it may have changed the application state.
\<close>

datatype 'a outcome = Returned 'a | Panicked string

subsection \<open>The default responder \<open>AbstractRSocket\<close>\<close>

record 'w AbstractRSocket =
  FF :: "(payload \<Rightarrow> 'w \<Rightarrow> unit outcome \<times> 'w) option"
  MP :: "(payload \<Rightarrow> 'w \<Rightarrow> unit outcome \<times> 'w) option"
  RR :: "(payload \<Rightarrow> 'w \<Rightarrow> mono outcome \<times> 'w) option"
  RS :: "(payload \<Rightarrow> 'w \<Rightarrow> flux outcome \<times> 'w) option"
  RC :: "(publisher \<Rightarrow> 'w \<Rightarrow> flux outcome \<times> 'w) option"

definition call_handler ::
  "('a \<Rightarrow> 'w \<Rightarrow> 'r outcome \<times> 'w) \<Rightarrow> 'a \<Rightarrow> 'w world \<Rightarrow> 'r outcome \<times> 'w world" where
  "call_handler fn message w =
     (let (r, a) = fn message (app w) in (r, w\<lparr>app := a\<rparr>))"

definition AbstractRSocket_MetadataPush ::
  "'w AbstractRSocket \<Rightarrow> payload \<Rightarrow> 'w world \<Rightarrow> unit outcome \<times> 'w world" where
  "AbstractRSocket_MetadataPush p message w =
     (case MP p of
        None \<Rightarrow> (Returned (), emit (Errorf (error_text errUnsupportedMetadataPush @ [CHR 0x0A])) w)
      | Some fn \<Rightarrow> call_handler fn message w)"

definition AbstractRSocket_FireAndForget ::
  "'w AbstractRSocket \<Rightarrow> payload \<Rightarrow> 'w world \<Rightarrow> unit outcome \<times> 'w world" where
  "AbstractRSocket_FireAndForget p message w =
     (case FF p of
        None \<Rightarrow> (Returned (), emit (Errorf (error_text errUnsupportedFireAndForget @ [CHR 0x0A])) w)
      | Some fn \<Rightarrow> call_handler fn message w)"

definition AbstractRSocket_RequestResponse ::
  "'w AbstractRSocket \<Rightarrow> payload \<Rightarrow> 'w world \<Rightarrow> mono outcome \<times> 'w world" where
  "AbstractRSocket_RequestResponse p message w =
     (case RR p of
        None \<Rightarrow> (Returned (MonoError errUnsupportedRequestResponse), w)
      | Some fn \<Rightarrow> call_handler fn message w)"

definition AbstractRSocket_RequestStream ::
  "'w AbstractRSocket \<Rightarrow> payload \<Rightarrow> 'w world \<Rightarrow> flux outcome \<times> 'w world" where
  "AbstractRSocket_RequestStream p message w =
     (case RS p of
        None \<Rightarrow> (Returned (FluxError errUnsupportedRequestStream), w)
      | Some fn \<Rightarrow> call_handler fn message w)"

definition AbstractRSocket_RequestChannel ::
  "'w AbstractRSocket \<Rightarrow> publisher \<Rightarrow> 'w world \<Rightarrow> flux outcome \<times> 'w world" where
  "AbstractRSocket_RequestChannel p messages w =
     (case RC p of
        None \<Rightarrow> (Returned (FluxError errUnsupportedRequestChannel), w)
      | Some fn \<Rightarrow> call_handler fn messages w)"

subsection \<open>The lease\<close>

text \<open>
  Modelled from the spec: the type \<open>leaser\<close> with \<open>newLeaser\<close>, \<open>refresh\<close> and
  \<open>allow\<close>, which are defined elsewhere in the package. The spec gives the state (a deadline
  and a count of remaining requests) and the case analysis of \<open>allow\<close>. Instants and
  durations are integers (nanoseconds); the current time is an argument. A nil pointer is
  \<open>None\<close>: no window was ever installed.
\<close>

record leaser =
  deadline :: int
  remaining :: int

definition newLeaser :: "int \<Rightarrow> int \<Rightarrow> leaser" where
  "newLeaser d n = \<lparr>deadline = d, remaining = n\<rparr>"

definition refresh :: "int \<Rightarrow> int \<Rightarrow> leaser \<Rightarrow> leaser" where
  "refresh d n l = l\<lparr>deadline := d, remaining := n\<rparr>"

definition allow :: "int \<Rightarrow> leaser option \<Rightarrow> error option \<times> leaser option" where
  "allow now lo =
     (case lo of
        None \<Rightarrow> (None, None)
      | Some l \<Rightarrow>
          if now \<ge> deadline l then (Some errLeaseExpired, Some l)
          else if remaining l = 0 then (Some errLeaseExhausted, Some l)
          else (None, Some (l\<lparr>remaining := remaining l - 1\<rparr>)))"

text \<open>A run of \<open>allow\<close> calls, one at each of the given instants.\<close>

fun allows :: "int list \<Rightarrow> leaser option \<Rightarrow> error option list \<times> leaser option" where
  "allows [] lo = ([], lo)"
| "allows (t # ts) lo =
     (let (e, lo') = allow t lo; (es, lo'') = allows ts lo' in (e # es, lo''))"

subsection \<open>The underlying duplex socket\<close>

text \<open>
  Modelled from the spec: the collaborator \<open>DuplexRSocket\<close>, which has the five
  interaction methods and \<open>Close\<close>. Each call is recorded as an event; what the peer
  answers and what closing reports are fields of the record.
\<close>

record DuplexRSocket =
  replyResponse :: "payload \<Rightarrow> mono"
  replyStream :: "payload \<Rightarrow> flux"
  replyChannel :: "publisher \<Rightarrow> flux"
  closeResult :: "error option"

definition DuplexRSocket_FireAndForget :: "DuplexRSocket \<Rightarrow> payload \<Rightarrow> 'w world \<Rightarrow> 'w world" where
  "DuplexRSocket_FireAndForget d message w = emit (DuplexFireAndForget message) w"

definition DuplexRSocket_MetadataPush :: "DuplexRSocket \<Rightarrow> payload \<Rightarrow> 'w world \<Rightarrow> 'w world" where
  "DuplexRSocket_MetadataPush d message w = emit (DuplexMetadataPush message) w"

definition DuplexRSocket_RequestResponse ::
  "DuplexRSocket \<Rightarrow> payload \<Rightarrow> 'w world \<Rightarrow> mono \<times> 'w world" where
  "DuplexRSocket_RequestResponse d message w =
     (replyResponse d message, emit (DuplexRequestResponse message) w)"

definition DuplexRSocket_RequestStream ::
  "DuplexRSocket \<Rightarrow> payload \<Rightarrow> 'w world \<Rightarrow> flux \<times> 'w world" where
  "DuplexRSocket_RequestStream d message w =
     (replyStream d message, emit (DuplexRequestStream message) w)"

definition DuplexRSocket_RequestChannel ::
  "DuplexRSocket \<Rightarrow> publisher \<Rightarrow> 'w world \<Rightarrow> flux \<times> 'w world" where
  "DuplexRSocket_RequestChannel d messages w =
     (replyChannel d messages, emit (DuplexRequestChannel messages) w)"

definition DuplexRSocket_Close :: "DuplexRSocket \<Rightarrow> 'w world \<Rightarrow> error option \<times> 'w world" where
  "DuplexRSocket_Close d w = (closeResult d, emit DuplexClose w)"

subsection \<open>The admission-controlled socket \<open>baseSocket\<close>\<close>

text \<open>
  A close hook gets the close error (or nil) and acts on the application state. The slice
  \<open>closers\<close> holds function values, which in Go may be nil, hence the \<open>option\<close>.
  The field \<open>once\<close> is the \<open>sync.Once\<close>: \<open>True\<close> after its function has run.
  \<open>sync.Once\<close> makes concurrent calls of \<open>Do\<close> take turns, so a call of \<open>Close\<close> is
  one step.
\<close>

type_synonym 'w closer = "error option \<Rightarrow> 'w \<Rightarrow> unit outcome \<times> 'w"

record 'w baseSocket =
  socket :: DuplexRSocket
  closers :: "'w closer option list"
  once :: bool
  reqLease :: "leaser option"

definition newBaseSocket :: "DuplexRSocket \<Rightarrow> 'w baseSocket" where
  "newBaseSocket rawSocket = \<lparr>socket = rawSocket, closers = [], once = False, reqLease = None\<rparr>"

definition refreshLease :: "int \<Rightarrow> int \<Rightarrow> int \<Rightarrow> 'w baseSocket \<Rightarrow> 'w baseSocket" where
  "refreshLease now ttl n p =
     (let d = now + ttl
      in case reqLease p of
           None \<Rightarrow> p\<lparr>reqLease := Some (newLeaser d n)\<rparr>
         | Some l \<Rightarrow> p\<lparr>reqLease := Some (refresh d n l)\<rparr>)"

definition baseSocket_FireAndForget ::
  "int \<Rightarrow> 'w baseSocket \<Rightarrow> payload \<Rightarrow> 'w world \<Rightarrow> 'w baseSocket \<times> 'w world" where
  "baseSocket_FireAndForget now p message w =
     (let (err, lo) = allow now (reqLease p);
          p' = p\<lparr>reqLease := lo\<rparr>;
          w' = (case err of
                  Some e \<Rightarrow> emit (Warnf (''request FireAndForget failed: '' @ error_text e
                                           @ [CHR 0x0A])) w
                | None \<Rightarrow> w)
      in (p', DuplexRSocket_FireAndForget (socket p') message w'))"

definition baseSocket_MetadataPush ::
  "'w baseSocket \<Rightarrow> payload \<Rightarrow> 'w world \<Rightarrow> 'w baseSocket \<times> 'w world" where
  "baseSocket_MetadataPush p message w = (p, DuplexRSocket_MetadataPush (socket p) message w)"

definition baseSocket_RequestResponse ::
  "int \<Rightarrow> 'w baseSocket \<Rightarrow> payload \<Rightarrow> 'w world \<Rightarrow> mono \<times> 'w baseSocket \<times> 'w world" where
  "baseSocket_RequestResponse now p message w =
     (let (err, lo) = allow now (reqLease p);
          p' = p\<lparr>reqLease := lo\<rparr>
      in case err of
           Some e \<Rightarrow> (MonoError e, p', w)
         | None \<Rightarrow> (let (r, w') = DuplexRSocket_RequestResponse (socket p') message w
                    in (r, p', w')))"

definition baseSocket_RequestStream ::
  "int \<Rightarrow> 'w baseSocket \<Rightarrow> payload \<Rightarrow> 'w world \<Rightarrow> flux \<times> 'w baseSocket \<times> 'w world" where
  "baseSocket_RequestStream now p message w =
     (let (err, lo) = allow now (reqLease p);
          p' = p\<lparr>reqLease := lo\<rparr>
      in case err of
           Some e \<Rightarrow> (FluxError e, p', w)
         | None \<Rightarrow> (let (r, w') = DuplexRSocket_RequestStream (socket p') message w
                    in (r, p', w')))"

definition baseSocket_RequestChannel ::
  "int \<Rightarrow> 'w baseSocket \<Rightarrow> publisher \<Rightarrow> 'w world \<Rightarrow> flux \<times> 'w baseSocket \<times> 'w world" where
  "baseSocket_RequestChannel now p messages w =
     (let (err, lo) = allow now (reqLease p);
          p' = p\<lparr>reqLease := lo\<rparr>
      in case err of
           Some e \<Rightarrow> (FluxError e, p', w)
         | None \<Rightarrow> (let (r, w') = DuplexRSocket_RequestChannel (socket p') messages w
                    in (r, p', w')))"

definition OnClose :: "'w closer option \<Rightarrow> 'w baseSocket \<Rightarrow> 'w baseSocket" where
  "OnClose fn p = (case fn of Some _ \<Rightarrow> p\<lparr>closers := closers p @ [fn]\<rparr> | None \<Rightarrow> p)"

text \<open>
  Calling a hook: a nil function value raises the runtime's nil-dereference fault.
  \<open>recover\<close> gives the value of the fault under way, if any.
\<close>

definition call_closer :: "'w closer option \<Rightarrow> error option \<Rightarrow> 'w \<Rightarrow> unit outcome \<times> 'w" where
  "call_closer fn err a =
     (case fn of
        None \<Rightarrow> (Panicked ''runtime error: invalid memory address or nil pointer dereference'', a)
      | Some f \<Rightarrow> f err a)"

definition recover :: "'a outcome \<Rightarrow> string option" where
  "recover r = (case r of Panicked v \<Rightarrow> Some v | Returned _ \<Rightarrow> None)"

text \<open>
  Modelled from the spec: \<open>tryRecover\<close>, defined elsewhere in the package, which turns a
  recovered fault into an error and leaves nil as nil.
\<close>

definition tryRecover :: "string option \<Rightarrow> error option" where
  "tryRecover v = map_option Recovered v"

text \<open>The function literal in the loop of \<open>Close\<close>: one hook, with its deferred recovery.\<close>

definition run_closer :: "'w closer option \<Rightarrow> error option \<Rightarrow> 'w world \<Rightarrow> 'w world" where
  "run_closer fn err w =
     (let (r, a) = call_closer fn err (app w);
          w' = w\<lparr>app := a\<rparr>
      in case tryRecover (recover r) of
           Some e \<Rightarrow> emit (Errorf (''handle socket closer failed: '' @ error_text e
                                    @ [CHR 0x0A])) w'
         | None \<Rightarrow> w')"

function close_loop ::
  "'w closer option list \<Rightarrow> error option \<Rightarrow> nat \<Rightarrow> nat \<Rightarrow> 'w world \<Rightarrow> 'w world" where
  "close_loop cs err i l w =
     (if i < l then close_loop cs err (Suc i) l (run_closer (cs ! (l - i - 1)) err w) else w)"
  by pat_completeness auto
termination
  by (relation "measure (\<lambda>(cs, err, i, l, w). l - i)") auto

declare close_loop.simps [simp del]

definition Close ::
  "'w baseSocket \<Rightarrow> 'w world \<Rightarrow> error option \<times> 'w baseSocket \<times> 'w world" where
  "Close p w =
     (if once p then (None, p, w)
      else (let (err, w1) = DuplexRSocket_Close (socket p) w;
                w2 = close_loop (closers p) err 0 (length (closers p)) w1
            in (err, p\<lparr>once := True\<rparr>, w2)))"

text \<open>\<open>K\<close> callers of \<open>Close\<close>, taking their turns; each caller's result is kept.\<close>

fun Closes ::
  "nat \<Rightarrow> 'w baseSocket \<Rightarrow> 'w world \<Rightarrow> error option list \<times> 'w baseSocket \<times> 'w world" where
  "Closes 0 p w = ([], p, w)"
| "Closes (Suc k) p w =
     (let (e, p', w') = Close p w;
          (es, p'', w'') = Closes k p' w'
      in (e # es, p'', w''))"

text \<open>
  The log lines a pass over a list of hooks must leave, by the spec's words: a hook that
  raises a fault is caught and logged, and the hooks after it still run.
\<close>

fun fault_log :: "error option \<Rightarrow> 'w closer option list \<Rightarrow> 'w \<Rightarrow> event list" where
  "fault_log err [] a = []"
| "fault_log err (c # cs) a =
     (case fst (call_closer c err a) of
        Panicked v \<Rightarrow> [Errorf (''handle socket closer failed: '' @ v @ [CHR 0x0A])]
      | Returned _ \<Rightarrow> [])
     @ fault_log err cs (snd (call_closer c err a))"

subsection \<open>A socket with three hooks, for concrete runs\<close>

definition example_duplex :: DuplexRSocket where
  "example_duplex =
     \<lparr>replyResponse = (\<lambda>m. MonoJust (Some m)), replyStream = (\<lambda>m. FluxItems [m]),
      replyChannel = (\<lambda>ms. FluxItems ms),
      closeResult = Some (TransportError ''connection reset'')\<rparr>"

definition example_note :: "string \<Rightarrow> string list closer" where
  "example_note name err a = (Returned (), a @ [name])"

definition example_faulty :: "string \<Rightarrow> string list closer" where
  "example_faulty name err a = (Panicked ''boom'', a @ [name])"

definition example_socket :: "string list baseSocket" where
  "example_socket =
     OnClose (Some (example_note ''third''))
       (OnClose (Some (example_faulty ''second''))
         (OnClose (Some (example_note ''first'')) (newBaseSocket example_duplex)))"

definition example_world :: "string list world" where
  "example_world = \<lparr>events = [], app = []\<rparr>"

section \<open>Properties of the transport resolver\<close>

subsection \<open>What the pattern accepts\<close>

lemma rmatch_Lit_D: "(g, t) \<in> set (rmatch (Lit l) s) \<Longrightarrow> g = [] \<and> s = l @ t"
  by (auto split: if_splits) (metis append_take_drop_id)

lemma rmatch_OneOf_D:
  "(g, t) \<in> set (rmatch (OneOf k) s) \<Longrightarrow> g = [] \<and> (\<exists>c. s = c # t \<and> in_class k c)"
  by (auto split: list.splits if_splits)

lemma take_takeWhile_all:
  assumes "n \<le> length (takeWhile P s)"
  shows "list_all P (take n s)"
proof -
  have "take n (takeWhile P s @ dropWhile P s) = take n (takeWhile P s)"
    using assms by (simp only: take_append) simp
  then have "take n s = take n (takeWhile P s)" by simp
  then have "set (take n s) \<subseteq> set (takeWhile P s)" by (simp add: set_take_subset)
  then show ?thesis by (auto simp: list_all_iff dest: set_takeWhileD)
qed

lemma rmatch_Plus_D:
  assumes "(g, t) \<in> set (rmatch (Plus k) s)"
  shows "g = [] \<and> (\<exists>u. u \<noteq> [] \<and> s = u @ t \<and> list_all (in_class k) u)"
proof -
  from assms obtain n where n: "1 \<le> n" "n \<le> length (takeWhile (in_class k) s)"
    and g: "g = []" and t: "t = drop n s"
    by auto
  have "n \<le> length s" using n(2) length_takeWhile_le [of "in_class k" s] by linarith
  with n(1) have "take n s \<noteq> []" by auto
  moreover have "s = take n s @ t" using t by simp
  moreover have "list_all (in_class k) (take n s)" using n(2) by (rule take_takeWhile_all)
  ultimately show ?thesis using g by blast
qed

lemma rmatch_Seq_D:
  "(g, t) \<in> set (rmatch (Seq a b) s) \<Longrightarrow>
     \<exists>g1 g2 m. (g1, m) \<in> set (rmatch a s) \<and> (g2, t) \<in> set (rmatch b m) \<and> g = g1 @ g2"
  by auto

lemma rmatch_Alt_D:
  "(g, t) \<in> set (rmatch (Alt a b) s) \<Longrightarrow>
     (g, t) \<in> set (rmatch a s) \<or> (g, t) \<in> set (rmatch b s)"
  by auto

lemma rmatch_Opt_D:
  "(g, t) \<in> set (rmatch (Opt a) s) \<Longrightarrow> (g, t) \<in> set (rmatch a s) \<or> (g = [] \<and> t = s)"
  by auto

lemma rmatch_suffix: "(g, t) \<in> set (rmatch r s) \<Longrightarrow> \<exists>u. s = u @ t"
proof (induction r arbitrary: g t s)
  case (Lit l)
  then show ?case by (blast dest: rmatch_Lit_D)
next
  case (OneOf k)
  then show ?case by (fastforce dest: rmatch_OneOf_D)
next
  case (Plus k)
  then show ?case by (blast dest: rmatch_Plus_D)
next
  case (Seq a b)
  from Seq.prems obtain g1 g2 m where
    "(g1, m) \<in> set (rmatch a s)" "(g2, t) \<in> set (rmatch b m)"
    by (blast dest: rmatch_Seq_D)
  with Seq.IH obtain u v where "s = u @ m" "m = v @ t" by blast
  then have "s = (u @ v) @ t" by simp
  then show ?case by blast
next
  case (Alt a b)
  then show ?case by (blast dest: rmatch_Alt_D)
next
  case (Opt a)
  from Opt.prems have "(g, t) \<in> set (rmatch a s) \<or> t = s" by (blast dest: rmatch_Opt_D)
  then show ?case
  proof
    assume "(g, t) \<in> set (rmatch a s)"
    then show ?thesis by (rule Opt.IH)
  next
    assume "t = s"
    then have "s = [] @ t" by simp
    then show ?thesis by blast
  qed
next
  case (Group i a)
  then show ?case by auto
qed

lemma rmatch_Group_D:
  assumes "(g, t) \<in> set (rmatch (Group i a) s)"
  shows "\<exists>g' u. (g', t) \<in> set (rmatch a s) \<and> s = u @ t \<and> g = (i, u) # g'"
proof -
  from assms obtain g' where g': "(g', t) \<in> set (rmatch a s)"
    and g: "g = (i, take (length s - length t) s) # g'"
    by auto
  from g' obtain u where "s = u @ t" by (blast dest: rmatch_suffix)
  with g g' show ?thesis by auto
qed

lemma regURI_body_D:
  assumes "(g, t) \<in> set (rmatch regURI_body s)"
  shows "\<exists>p h d ds. s = p @ h @ '':'' @ d # ds @ t
           \<and> (p = ''tcp://'' \<or> p = ''ws://'' \<or> p = '''')
           \<and> h \<noteq> [] \<and> list_all (in_class (NoneOf ''/:'')) h
           \<and> in_class (Between CHR ''1'' CHR ''9'') d
           \<and> ds \<noteq> [] \<and> list_all is_digit ds
           \<and> submatch g 1 = p \<and> submatch g 2 = h \<and> submatch g 3 = d # ds"
proof -
  from assms obtain g1 g2 g3 g4 m1 m2 m3 where
    a1: "(g1, m1) \<in> set (rmatch (Opt (Group 1 (Alt (Lit ''tcp://'') (Lit ''ws://'')))) s)" and
    a2: "(g2, m2) \<in> set (rmatch (Group 2 (Plus (NoneOf ''/:''))) m1)" and
    a3: "(g3, m3) \<in> set (rmatch (Lit '':'') m2)" and
    a4: "(g4, t) \<in> set (rmatch (Group 3 (Seq (OneOf (Between CHR ''1'' CHR ''9''))
                       (Plus (Between CHR ''0'' CHR ''9'')))) m3)" and
    g: "g = g1 @ g2 @ g3 @ g4"
    unfolding regURI_body_def by (blast dest!: rmatch_Seq_D)
  have p: "\<exists>p. s = p @ m1 \<and> (p = ''tcp://'' \<or> p = ''ws://'' \<or> p = [])
             \<and> g1 = (if p = [] then [] else [(1, p)])"
  proof -
    from a1 have "(g1, m1) \<in> set (rmatch (Group 1 (Alt (Lit ''tcp://'') (Lit ''ws://''))) s)
                  \<or> (g1 = [] \<and> m1 = s)"
      by (rule rmatch_Opt_D)
    then show ?thesis
    proof
      assume "(g1, m1) \<in> set (rmatch (Group 1 (Alt (Lit ''tcp://'') (Lit ''ws://''))) s)"
      then obtain g' u where
        alt: "(g', m1) \<in> set (rmatch (Alt (Lit ''tcp://'') (Lit ''ws://'')) s)"
        and u: "s = u @ m1" and g1: "g1 = (1, u) # g'"
        by (blast dest: rmatch_Group_D)
      from alt have "(g', m1) \<in> set (rmatch (Lit ''tcp://'') s)
                     \<or> (g', m1) \<in> set (rmatch (Lit ''ws://'') s)"
        by (rule rmatch_Alt_D)
      then have "g' = [] \<and> (s = ''tcp://'' @ m1 \<or> s = ''ws://'' @ m1)"
        by (blast dest: rmatch_Lit_D)
      with u have "g' = [] \<and> (u = ''tcp://'' \<or> u = ''ws://'')" by auto
      with u g1 show ?thesis by auto
    next
      assume "g1 = [] \<and> m1 = s"
      then show ?thesis by simp
    qed
  qed
  then obtain p where p: "s = p @ m1" "p = ''tcp://'' \<or> p = ''ws://'' \<or> p = []"
    "g1 = (if p = [] then [] else [(1, p)])"
    by blast
  from a2 obtain g2' h where h1: "(g2', m2) \<in> set (rmatch (Plus (NoneOf ''/:'')) m1)"
    and h2: "m1 = h @ m2" "g2 = (2, h) # g2'"
    by (blast dest: rmatch_Group_D)
  from h1 obtain h' where h3: "g2' = []" "h' \<noteq> []" "m1 = h' @ m2"
    "list_all (in_class (NoneOf ''/:'')) h'"
    by (blast dest: rmatch_Plus_D)
  from h2(1) h3(3) have "h' = h" by simp
  with h2 h3 have h: "m1 = h @ m2" "h \<noteq> []" "list_all (in_class (NoneOf ''/:'')) h"
    "g2 = [(2, h)]"
    by simp_all
  from a3 have c: "m2 = '':'' @ m3" "g3 = []"
    by (blast dest: rmatch_Lit_D)+
  from a4 obtain g4' w where d1: "(g4', t) \<in> set (rmatch (Seq (OneOf (Between CHR ''1'' CHR ''9''))
                       (Plus (Between CHR ''0'' CHR ''9''))) m3)"
    and d2: "m3 = w @ t" "g4 = (3, w) # g4'"
    by (blast dest: rmatch_Group_D)
  from d1 obtain ga gb m where d3: "(ga, m) \<in> set (rmatch (OneOf (Between CHR ''1'' CHR ''9'')) m3)"
    and d4: "(gb, t) \<in> set (rmatch (Plus (Between CHR ''0'' CHR ''9'')) m)"
    and d5: "g4' = ga @ gb"
    by (blast dest: rmatch_Seq_D)
  from d3 obtain d where d6: "ga = []" "m3 = d # m" "in_class (Between CHR ''1'' CHR ''9'') d"
    by (blast dest: rmatch_OneOf_D)
  from d4 obtain ds where d7: "gb = []" "ds \<noteq> []" "m = ds @ t"
    "list_all (in_class (Between CHR ''0'' CHR ''9'')) ds"
    by (blast dest: rmatch_Plus_D)
  from d2(1) d6(2) d7(3) have "w = d # ds" by simp
  with d2 d5 d6 d7 have d: "m3 = d # ds @ t" "in_class (Between CHR ''1'' CHR ''9'') d"
    "ds \<noteq> []" "list_all is_digit ds" "g4 = [(3, d # ds)]"
    by (simp_all add: is_digit_def list_all_iff)
  have "s = p @ h @ '':'' @ d # ds @ t" using p(1) h(1) c(1) d(1) by simp
  moreover have "submatch g 1 = p \<and> submatch g 2 = h \<and> submatch g 3 = d # ds"
    using g p(3) h(4) c(2) d(5) by (simp add: submatch_def)
  ultimately show ?thesis using p(2) h(2,3) d(2,3,4) by blast
qed

lemma FindStringSubmatch_Some_D:
  assumes "FindStringSubmatch re n s = Some mat"
  shows "\<exists>g. (g, []) \<in> set (rmatch re s) \<and> mat = s # map (submatch g) [1 ..< Suc n]"
proof -
  from assms obtain g t rest where
    f: "filter (\<lambda>(g, t). t = []) (rmatch re s) = (g, t) # rest"
    and mat: "mat = s # map (submatch g) [1 ..< Suc n]"
    by (auto simp: FindStringSubmatch_def split: list.splits)
  have "(g, t) \<in> set (filter (\<lambda>(g, t). t = []) (rmatch re s))" by (simp add: f)
  then have "(g, t) \<in> set (rmatch re s)" "t = []" by auto
  with mat show ?thesis by blast
qed

lemma regURI_Some_D:
  assumes "regURI s = Some mat"
  shows "\<exists>p h d ds. s = p @ h @ '':'' @ d # ds
           \<and> (p = ''tcp://'' \<or> p = ''ws://'' \<or> p = '''')
           \<and> h \<noteq> [] \<and> list_all (in_class (NoneOf ''/:'')) h
           \<and> in_class (Between CHR ''1'' CHR ''9'') d
           \<and> ds \<noteq> [] \<and> list_all is_digit ds
           \<and> mat = [s, p, h, d # ds]"
proof -
  from assms obtain g where g: "(g, []) \<in> set (rmatch regURI_body s)"
    and mat: "mat = s # map (submatch g) [1 ..< Suc 3]"
    unfolding regURI_def by (blast dest: FindStringSubmatch_Some_D)
  have "[1 ..< Suc 3] = [1, 2, 3]" by (simp add: upt_rec)
  with mat have "mat = [s, submatch g 1, submatch g 2, submatch g 3]" by simp
  with regURI_body_D [OF g] show ?thesis by auto
qed

lemma colon_then_intro: "colon_then c (a @ CHR '':'' # c # r)"
  by (induction a) auto

lemma scheme_tcp:
  assumes "a @ ''://'' @ b = ''tcp://'' @ rest" "\<not> colon_then CHR ''/'' rest"
  shows "a = ''tcp''"
proof -
  have ct: "\<And>a'. rest \<noteq> a' @ CHR '':'' # CHR ''/'' # CHR ''/'' # b"
    using assms(2) colon_then_intro [of "CHR ''/''" _ "CHR ''/'' # b"] by auto
  from assms(1) ct show ?thesis
    by (auto simp: append_eq_Cons_conv)
qed

lemma scheme_ws:
  assumes "a @ ''://'' @ b = ''ws://'' @ rest" "\<not> colon_then CHR ''/'' rest"
  shows "a = ''ws''"
proof -
  have ct: "\<And>a'. rest \<noteq> a' @ CHR '':'' # CHR ''/'' # CHR ''/'' # b"
    using assms(2) colon_then_intro [of "CHR ''/''" _ "CHR ''/'' # b"] by auto
  from assms(1) ct show ?thesis
    by (auto simp: append_eq_Cons_conv)
qed

lemma first_sep_unique:
  "c \<notin> set u \<Longrightarrow> c \<notin> set v \<Longrightarrow> u @ c # a = v @ c # b \<Longrightarrow> u = v \<and> a = b"
proof (induction u arbitrary: v)
  case Nil
  then show ?case by (cases v) auto
next
  case (Cons x u)
  then show ?case by (cases v) auto
qed

lemma last_colon_unique:
  assumes "a @ CHR '':'' # x = b @ CHR '':'' # y" "CHR '':'' \<notin> set x" "CHR '':'' \<notin> set y"
  shows "x = y"
proof -
  from assms(1) have "rev (a @ CHR '':'' # x) = rev (b @ CHR '':'' # y)" by simp
  then have "rev x @ CHR '':'' # rev a = rev y @ CHR '':'' # rev b" by simp
  moreover have "CHR '':'' \<notin> set (rev x)" "CHR '':'' \<notin> set (rev y)" using assms(2,3) by simp_all
  ultimately have "rev x = rev y \<and> rev a = rev b" by (rule first_sep_unique [rotated 2])
  then show ?thesis by simp
qed

lemma colon_then_no_colon: "CHR '':'' \<notin> set xs \<Longrightarrow> \<not> colon_then c xs"
  by (induction xs) auto

lemma colon_then_host_port:
  "CHR '':'' \<notin> set h \<Longrightarrow> d \<noteq> c \<Longrightarrow> CHR '':'' \<notin> set (d # ds) \<Longrightarrow>
     \<not> colon_then c (h @ CHR '':'' # d # ds)"
  by (induction h) (auto dest: colon_then_no_colon)

lemma is_digit_not_sep: "is_digit c \<Longrightarrow> c \<noteq> CHR '':'' \<and> c \<noteq> CHR ''/''"
  by (auto simp: is_digit_def)

lemma nonzero_digit: "in_class (Between CHR ''1'' CHR ''9'') d \<Longrightarrow> d \<noteq> CHR ''0'' \<and> is_digit d"
  by (auto simp: is_digit_def)

lemma digits_no_colon: "list_all is_digit ds \<Longrightarrow> CHR '':'' \<notin> set ds"
  by (auto simp: list_all_iff dest: is_digit_not_sep)

lemma host_no_colon: "list_all (in_class (NoneOf ''/:'')) h \<Longrightarrow> CHR '':'' \<notin> set h"
  by (auto simp: list_all_iff)

lemma regURI_Some_rest:
  assumes "regURI s = Some mat"
  shows "\<exists>p rest. s = p @ rest \<and> (p = ''tcp://'' \<or> p = ''ws://'' \<or> p = [])
           \<and> \<not> colon_then CHR ''/'' rest \<and> \<not> colon_then CHR ''0'' rest"
proof -
  from regURI_Some_D [OF assms] obtain p h d ds where
    s: "s = p @ h @ '':'' @ d # ds" and p: "p = ''tcp://'' \<or> p = ''ws://'' \<or> p = []"
    and h: "list_all (in_class (NoneOf ''/:'')) h"
    and d: "in_class (Between CHR ''1'' CHR ''9'') d" and ds: "list_all is_digit ds"
    by blast
  have hc: "CHR '':'' \<notin> set h" using h by (rule host_no_colon)
  have dd: "d \<noteq> CHR ''0''" "d \<noteq> CHR ''/''" "CHR '':'' \<notin> set (d # ds)"
    using nonzero_digit [OF d] digits_no_colon [OF ds] is_digit_not_sep [of d] by auto
  have "\<not> colon_then CHR ''/'' (h @ CHR '':'' # d # ds)"
    using hc dd(2) dd(3) by (rule colon_then_host_port)
  moreover have "\<not> colon_then CHR ''0'' (h @ CHR '':'' # d # ds)"
    using hc dd(1) dd(3) by (rule colon_then_host_port)
  moreover have "s = p @ (h @ CHR '':'' # d # ds)" using s by simp
  ultimately show ?thesis using p by blast
qed

lemma regURI_leading_zero: "regURI (a @ '':0'' @ r) = None"
proof (cases "regURI (a @ '':0'' @ r)")
  case None
  then show ?thesis .
next
  case (Some mat)
  from regURI_Some_rest [OF Some] obtain p rest where
    s: "a @ '':0'' @ r = p @ rest" and p: "p = ''tcp://'' \<or> p = ''ws://'' \<or> p = []"
    and n: "\<not> colon_then CHR ''0'' rest"
    by blast
  have "colon_then CHR ''0'' (a @ CHR '':'' # CHR ''0'' # r)" by (rule colon_then_intro)
  then have "colon_then CHR ''0'' (p @ rest)" using s by simp
  with p n have False by auto
  then show ?thesis ..
qed

lemma regURI_other_scheme:
  assumes "a \<noteq> ''tcp''" "a \<noteq> ''ws''"
  shows "regURI (a @ ''://'' @ b) = None"
proof (cases "regURI (a @ ''://'' @ b)")
  case None
  then show ?thesis .
next
  case (Some mat)
  from regURI_Some_rest [OF Some] obtain p rest where
    s: "a @ ''://'' @ b = p @ rest" and p: "p = ''tcp://'' \<or> p = ''ws://'' \<or> p = []"
    and n: "\<not> colon_then CHR ''/'' rest"
    by blast
  from p have False
  proof (elim disjE)
    assume "p = ''tcp://''"
    with s n have "a = ''tcp''" by (blast intro: scheme_tcp)
    with assms show False by simp
  next
    assume "p = ''ws://''"
    with s n have "a = ''ws''" by (blast intro: scheme_ws)
    with assms show False by simp
  next
    assume "p = []"
    with s have "rest = a @ CHR '':'' # CHR ''/'' # CHR ''/'' # b" by simp
    with n colon_then_intro [of "CHR ''/''" a "CHR ''/'' # b"] show False by simp
  qed
  then show ?thesis ..
qed

lemma regURI_single_digit: "regURI (h @ '':'' @ [d]) = None"
proof (cases "regURI (h @ '':'' @ [d])")
  case None
  then show ?thesis .
next
  case (Some mat)
  from regURI_Some_D [OF Some] obtain p h' d' ds where
    s: "h @ '':'' @ [d] = p @ h' @ '':'' @ d' # ds"
    and d': "in_class (Between CHR ''1'' CHR ''9'') d'" and ds: "list_all is_digit ds" "ds \<noteq> []"
    by blast
  have nc: "CHR '':'' \<notin> set (d' # ds)"
    using nonzero_digit [OF d'] digits_no_colon [OF ds(1)] is_digit_not_sep [of d'] by auto
  from s have e: "h @ CHR '':'' # [d] = (p @ h') @ CHR '':'' # (d' # ds)" by simp
  have False
  proof (cases "d = CHR '':''")
    case True
    from e have "last (h @ CHR '':'' # [d]) = last ((p @ h') @ CHR '':'' # (d' # ds))" by simp
    then have "d = last (d' # ds)" by simp
    moreover have "last (d' # ds) \<in> set (d' # ds)" by (rule last_in_set) simp
    ultimately show False using nc True by simp
  next
    case False
    then have nd: "CHR '':'' \<notin> set [d]" by simp
    from e nd nc have "[d] = d' # ds" by (rule last_colon_unique)
    with ds(2) show False by simp
  qed
  then show ?thesis ..
qed

lemma ParseURI_not_unsupported: "ParseURI s \<noteq> Inl (UnsupportedProtocol q)"
proof (cases "regURI s")
  case None
  then show ?thesis by (simp add: ParseURI_def)
next
  case (Some mat)
  from regURI_Some_D [OF Some] obtain p h d ds where
    "p = ''tcp://'' \<or> p = ''ws://'' \<or> p = []" "mat = [s, p, h, d # ds]"
    by blast
  with Some show ?thesis by (auto simp: ParseURI_def Let_def)
qed

text \<open>
  Claim C7. \<open>ParseURI\<close> accepts \<open>tcp://host:1234\<close>, \<open>host:1234\<close> (the scheme
  defaulting to tcp) and \<open>ws://host:1234\<close>, each with the expected protocol, host and
  port, and rejects \<open>host:9\<close>: the port pattern asks for at least two digits, so every
  string that ends in a colon and a single character is rejected as an invalid URI.
\<close>

theorem ParseURI_examples:
  "ParseURI ''tcp://host:1234'' = Inr \<lparr>proto = protoTCP, host = ''host'', port = 1234\<rparr>
   \<and> ParseURI ''host:1234'' = Inr \<lparr>proto = protoTCP, host = ''host'', port = 1234\<rparr>
   \<and> ParseURI ''ws://host:1234'' = Inr \<lparr>proto = protoWebsocket, host = ''host'', port = 1234\<rparr>
   \<and> ParseURI ''host:9'' = Inl (InvalidURI ''host:9'')
   \<and> (\<forall>h d. ParseURI (h @ '':'' @ [d]) = Inl (InvalidURI (h @ '':'' @ [d])))"
proof -
  have "ParseURI ''tcp://host:1234'' = Inr \<lparr>proto = protoTCP, host = ''host'', port = 1234\<rparr>"
    by code_simp
  moreover have "ParseURI ''host:1234'' = Inr \<lparr>proto = protoTCP, host = ''host'', port = 1234\<rparr>"
    by code_simp
  moreover have "ParseURI ''ws://host:1234'' = Inr \<lparr>proto = protoWebsocket, host = ''host'', port = 1234\<rparr>"
    by code_simp
  moreover have "ParseURI ''host:9'' = Inl (InvalidURI ''host:9'')"
    by code_simp
  moreover have "\<forall>h d. ParseURI (h @ '':'' @ [d]) = Inl (InvalidURI (h @ '':'' @ [d]))"
    using regURI_single_digit by (simp add: ParseURI_def)
  ultimately show ?thesis by blast
qed

text \<open>
  The part of claim C2 that holds, for every string: a string that has not the shape
  \<open>[scheme://]host:port\<close> (an optional \<open>tcp://\<close> or \<open>ws://\<close>, a host of one or
  more characters other than \<open>/\<close> and \<open>:\<close>, a colon, a digit from 1 to 9 and one or
  more digits) fails with the "invalid URI" error.
\<close>

lemma ParseURI_not_shape_invalid:
  assumes "\<not> (\<exists>p h d ds. s = p @ h @ '':'' @ d # ds
                \<and> (p = ''tcp://'' \<or> p = ''ws://'' \<or> p = '''')
                \<and> h \<noteq> [] \<and> list_all (in_class (NoneOf ''/:'')) h
                \<and> in_class (Between CHR ''1'' CHR ''9'') d
                \<and> ds \<noteq> [] \<and> list_all is_digit ds)"
  shows "ParseURI s = Inl (InvalidURI s)"
proof (cases "regURI s")
  case None
  then show ?thesis by (simp add: ParseURI_def)
next
  case (Some mat)
  from regURI_Some_D [OF Some] assms have False by blast
  then show ?thesis ..
qed

text \<open>
  What the code does with any other scheme: the string does not match \<open>regURI\<close>, so
  \<open>ParseURI\<close> leaves at the nil check with "invalid URI", and the default branch of its
  switch, which holds the "unsupported protocol" error, is reached by no input.
\<close>

lemma ParseURI_other_scheme_invalid:
  assumes "a \<noteq> ''tcp''" and "a \<noteq> ''ws''"
  shows "ParseURI (a @ ''://'' @ b) = Inl (InvalidURI (a @ ''://'' @ b))"
  using regURI_other_scheme [OF assms] by (simp add: ParseURI_def)

text \<open>
  Claim C2 says that a string with a scheme prefix other than \<open>tcp://\<close> or \<open>ws://\<close>
  fails with the "unsupported protocol" error. The code has a branch for that error but
  misses it: \<open>ftp://host:1234\<close> is answered with "invalid URI".
\<close>

theorem ParseURI_ftp_is_invalid_URI:
  "ParseURI ''ftp://host:1234'' = Inl (InvalidURI ''ftp://host:1234'')
   \<and> ParseURI ''ftp://host:1234'' \<noteq> Inl (UnsupportedProtocol ''ftp://'')"
  by code_simp

text \<open>
  Claim C9. A string in which a colon is directly followed by the digit 0, so in
  particular every string whose port starts with 0 (such as \<open>host:01234\<close>), is rejected
  with the "invalid URI" error, however many digits the port has: the first digit of the
  port must be one of 1 to 9.
\<close>

theorem ParseURI_leading_zero_port:
  "ParseURI (a @ '':0'' @ r) = Inl (InvalidURI (a @ '':0'' @ r))"
  using regURI_leading_zero [of a r] by (simp add: ParseURI_def)

section \<open>Properties of the sockets\<close>

subsection \<open>The default responder\<close>

text \<open>
  Claim C5. On a default responder whose handler for the model is unset, whatever the
  payload: \<open>RequestResponse\<close>, \<open>RequestStream\<close> and \<open>RequestChannel\<close> return an
  already-failed result with the error of that model, and leave the world as it was;
  \<open>FireAndForget\<close> and \<open>MetadataPush\<close> log one line and return normally. The five
  errors and their texts are pairwise distinct.
\<close>

theorem unset_handlers:
  "AbstractRSocket_RequestResponse (p\<lparr>RR := None\<rparr>) message w
     = (Returned (MonoError errUnsupportedRequestResponse), w)
   \<and> AbstractRSocket_RequestStream (p\<lparr>RS := None\<rparr>) message w
     = (Returned (FluxError errUnsupportedRequestStream), w)
   \<and> AbstractRSocket_RequestChannel (p\<lparr>RC := None\<rparr>) messages w
     = (Returned (FluxError errUnsupportedRequestChannel), w)
   \<and> AbstractRSocket_FireAndForget (p\<lparr>FF := None\<rparr>) message w
     = (Returned (), w\<lparr>events := events w @ [Errorf (''unsupported FIRE_AND_FORGET'' @ [CHR 0x0A])]\<rparr>)
   \<and> AbstractRSocket_MetadataPush (p\<lparr>MP := None\<rparr>) message w
     = (Returned (), w\<lparr>events := events w @ [Errorf (''unsupported METADATA_PUSH'' @ [CHR 0x0A])]\<rparr>)
   \<and> distinct [errUnsupportedMetadataPush, errUnsupportedFireAndForget,
                errUnsupportedRequestResponse, errUnsupportedRequestStream,
                errUnsupportedRequestChannel]
   \<and> distinct (map error_text [errUnsupportedMetadataPush, errUnsupportedFireAndForget,
                errUnsupportedRequestResponse, errUnsupportedRequestStream,
                errUnsupportedRequestChannel])"
  by (simp add: AbstractRSocket_RequestResponse_def AbstractRSocket_RequestStream_def
      AbstractRSocket_RequestChannel_def AbstractRSocket_FireAndForget_def
      AbstractRSocket_MetadataPush_def emit_def)

subsection \<open>The lease\<close>

lemma allows_within:
  "list_all (\<lambda>t. t < d) ts \<Longrightarrow> int (length ts) \<le> r \<Longrightarrow>
     allows ts (Some \<lparr>deadline = d, remaining = r\<rparr>)
       = (replicate (length ts) None, Some \<lparr>deadline = d, remaining = r - int (length ts)\<rparr>)"
proof (induction ts arbitrary: r)
  case Nil
  then show ?case by simp
next
  case (Cons t ts)
  then have t: "t < d" and r: "r \<noteq> 0" and ts: "list_all (\<lambda>t. t < d) ts"
    and le: "int (length ts) \<le> r - 1"
    by auto
  have "allow t (Some \<lparr>deadline = d, remaining = r\<rparr>)
          = (None, Some \<lparr>deadline = d, remaining = r - 1\<rparr>)"
    using t r by (simp add: allow_def)
  moreover have "allows ts (Some \<lparr>deadline = d, remaining = r - 1\<rparr>)
          = (replicate (length ts) None,
             Some \<lparr>deadline = d, remaining = r - 1 - int (length ts)\<rparr>)"
    using ts le by (rule Cons.IH)
  ultimately show ?case by simp
qed

lemma reqLease_refreshLease:
  "reqLease (refreshLease now ttl n p) = Some \<lparr>deadline = now + ttl, remaining = n\<rparr>"
  by (simp add: refreshLease_def newLeaser_def refresh_def Let_def split: option.splits)

text \<open>
  Claim C4. The admission check: with no window ever installed it allows; otherwise at
  or past the deadline it denies with "lease expired", whatever remains; otherwise with
  nothing remaining it denies with "lease exhausted"; otherwise it takes one from the
  remaining count and allows. Hence after \<open>refreshLease\<close> with a quota \<open>n\<close>, \<open>n\<close>
  calls before the deadline are all allowed and one more call before the deadline is
  denied as exhausted.
\<close>

theorem lease_admission:
  assumes "0 \<le> n" and "length ts = nat n" and "list_all (\<lambda>t. t < now + ttl) ts"
    and "t' < now + ttl"
  shows "allow t None = (None, None)
       \<and> allow t (Some l)
           = (if deadline l \<le> t then (Some errLeaseExpired, Some l)
              else if remaining l = 0 then (Some errLeaseExhausted, Some l)
              else (None, Some (l\<lparr>remaining := remaining l - 1\<rparr>)))
       \<and> fst (allows ts (reqLease (refreshLease now ttl n p))) = replicate (nat n) None
       \<and> fst (allow t' (snd (allows ts (reqLease (refreshLease now ttl n p)))))
           = Some errLeaseExhausted"
proof -
  have len: "int (length ts) = n" using assms(1,2) by simp
  have run: "allows ts (reqLease (refreshLease now ttl n p))
               = (replicate (length ts) None, Some \<lparr>deadline = now + ttl, remaining = 0\<rparr>)"
    using allows_within [OF assms(3), of n] len by (simp add: reqLease_refreshLease)
  have "fst (allow t' (Some \<lparr>deadline = now + ttl, remaining = 0\<rparr>)) = Some errLeaseExhausted"
    using assms(4) by (simp add: allow_def)
  with run assms(2) show ?thesis by (simp add: allow_def)
qed

text \<open>
  Claim C4 at a quota of 2 installed at time 0 for 10 time units, with calls at times 1,
  2 and 3; and a call at time 11 on a window that ended at 10 with 5 remaining.
\<close>

theorem lease_admission_witness:
  "(0::int) \<le> 2 \<and> length [1, 2 :: int] = nat 2 \<and> list_all (\<lambda>t. t < 0 + 10) [1, 2 :: int]
   \<and> (3::int) < 0 + 10
   \<and> fst (allows [1, 2] (reqLease (refreshLease 0 10 2 example_socket))) = [None, None]
   \<and> fst (allow 3 (snd (allows [1, 2] (reqLease (refreshLease 0 10 2 example_socket)))))
       = Some errLeaseExhausted
   \<and> allow 11 (Some \<lparr>deadline = 10, remaining = 5\<rparr>)
       = (Some errLeaseExpired, Some \<lparr>deadline = 10, remaining = 5\<rparr>)"
proof -
  have h1: "(0::int) \<le> 2" by simp
  have h2: "length [1, 2 :: int] = nat 2" by simp
  have h3: "list_all (\<lambda>t. t < 0 + 10) [1, 2 :: int]" by simp
  have h4: "(3::int) < 0 + 10" by simp
  show ?thesis
    using lease_admission [OF h1 h2 h3 h4, of 11 "\<lparr>deadline = 10, remaining = 5\<rparr>" example_socket]
    by (simp add: numeral_2_eq_2)
qed

subsection \<open>Dispatch through the lease\<close>

text \<open>
  When the lease denies, the three result-bearing models return the failure and nothing
  reaches the duplex socket; \<open>FireAndForget\<close> logs the denial and goes on to the call of
  the duplex socket.
\<close>

lemma RequestResponse_denied:
  assumes "fst (allow now (reqLease p)) = Some e"
  shows "fst (baseSocket_RequestResponse now p message w) = MonoError e
       \<and> snd (snd (baseSocket_RequestResponse now p message w)) = w"
  using assms by (auto simp: baseSocket_RequestResponse_def Let_def split: prod.splits)

lemma RequestStream_denied:
  assumes "fst (allow now (reqLease p)) = Some e"
  shows "fst (baseSocket_RequestStream now p message w) = FluxError e
       \<and> snd (snd (baseSocket_RequestStream now p message w)) = w"
  using assms by (auto simp: baseSocket_RequestStream_def Let_def split: prod.splits)

lemma RequestChannel_denied:
  assumes "fst (allow now (reqLease p)) = Some e"
  shows "fst (baseSocket_RequestChannel now p messages w) = FluxError e
       \<and> snd (snd (baseSocket_RequestChannel now p messages w)) = w"
  using assms by (auto simp: baseSocket_RequestChannel_def Let_def split: prod.splits)

lemma FireAndForget_denied:
  assumes "fst (allow now (reqLease p)) = Some e"
  shows "snd (baseSocket_FireAndForget now p message w)
           = w\<lparr>events := events w @ [Warnf (''request FireAndForget failed: '' @ error_text e
                                              @ [CHR 0x0A]),
                                       DuplexFireAndForget message]\<rparr>"
  using assms
  by (auto simp: baseSocket_FireAndForget_def DuplexRSocket_FireAndForget_def emit_def Let_def
      split: prod.splits)

text \<open>
  Claim C1 says that a denied \<open>FireAndForget\<close> is logged and dropped. The code logs it
  and forwards it all the same: with a quota of 0 installed at time 0 for 10 time units,
  a \<open>FireAndForget\<close> at time 5 leaves the warning and then the call on the duplex socket.
\<close>

theorem FireAndForget_denied_is_forwarded:
  "snd (baseSocket_FireAndForget 5 (refreshLease 0 10 0 example_socket)
          (Payload ''ping'' None) example_world)
     = \<lparr>events = [Warnf (''request FireAndForget failed: lease exhausted'' @ [CHR 0x0A]),
                  DuplexFireAndForget (Payload ''ping'' None)],
        app = []\<rparr>"
  by (simp add: baseSocket_FireAndForget_def DuplexRSocket_FireAndForget_def emit_def
      reqLease_refreshLease allow_def example_world_def)

text \<open>
  Claim C8. Whatever the payload and whatever the lease (none, active, exhausted or
  expired), \<open>MetadataPush\<close> hands the payload unchanged to the duplex socket, logs
  nothing and leaves the socket, so also its lease, as it was.
\<close>

theorem MetadataPush_not_gated:
  "baseSocket_MetadataPush p message w = (p, w\<lparr>events := events w @ [DuplexMetadataPush message]\<rparr>)
   \<and> reqLease (fst (baseSocket_MetadataPush p message w)) = reqLease p"
  by (simp add: baseSocket_MetadataPush_def DuplexRSocket_MetadataPush_def emit_def)

subsection \<open>Close hooks\<close>

lemma closers_OnClose_fold:
  "closers (foldl (\<lambda>q f. OnClose f q) p fs) = closers p @ filter (\<lambda>f. f \<noteq> None) fs"
  by (induction fs arbitrary: p) (simp_all add: OnClose_def split: option.splits)

text \<open>
  Claim C10. \<open>OnClose\<close> with a nil function leaves the socket as it is; so the hooks of
  a socket built by any run of \<open>OnClose\<close> calls are the non-nil arguments in the order
  given, and no nil function is among the hooks the close sequence calls.
\<close>

theorem OnClose_nil_ignored:
  "OnClose None p = p
   \<and> closers (foldl (\<lambda>q f. OnClose f q) (newBaseSocket rawSocket) fs)
       = filter (\<lambda>f. f \<noteq> None) fs
   \<and> None \<notin> set (closers (foldl (\<lambda>q f. OnClose f q) (newBaseSocket rawSocket) fs))"
  by (simp add: closers_OnClose_fold) (simp add: OnClose_def newBaseSocket_def)

subsection \<open>The close sequence\<close>

lemma run_closer_app: "app (run_closer c e w) = snd (call_closer c e (app w))"
  by (simp add: run_closer_def emit_def tryRecover_def recover_def
      split: prod.splits outcome.splits)

lemma run_closer_events:
  "events (run_closer c e w) =
     events w @ (case fst (call_closer c e (app w)) of
                   Panicked v \<Rightarrow> [Errorf (''handle socket closer failed: '' @ v @ [CHR 0x0A])]
                 | Returned _ \<Rightarrow> [])"
  by (simp add: run_closer_def emit_def tryRecover_def recover_def
      split: prod.splits outcome.splits)

lemma foldl_run_closer_app:
  "app (foldl (\<lambda>w c. run_closer c e w) w cs) = foldl (\<lambda>a c. snd (call_closer c e a)) (app w) cs"
  by (induction cs arbitrary: w) (simp_all add: run_closer_app)

lemma foldl_run_closer_events:
  "events (foldl (\<lambda>w c. run_closer c e w) w cs) = events w @ fault_log e cs (app w)"
  by (induction cs arbitrary: w) (simp_all add: run_closer_app run_closer_events)

text \<open>The loop of \<open>Close\<close>, counting \<open>i\<close> up and indexing from the end, is a pass over
  the reversed list.\<close>

lemma close_loop_from:
  "i \<le> length cs \<Longrightarrow>
     close_loop cs e i (length cs) w
       = foldl (\<lambda>w c. run_closer c e w) w (rev (take (length cs - i) cs))"
proof (induction "length cs - i" arbitrary: i w)
  case 0
  then show ?case by (simp add: close_loop.simps)
next
  case (Suc k)
  then have lt: "i < length cs" and k: "k = length cs - Suc i" by linarith+
  have idx: "length cs - i - 1 = k" using k by simp
  have sk: "length cs - i = Suc k" using Suc.hyps(2) by simp
  have kl: "k < length cs" using k lt by linarith
  have tk: "take (length cs - i) cs = take k cs @ [cs ! k]"
    using kl by (simp add: sk take_Suc_conv_app_nth)
  have "close_loop cs e i (length cs) w
          = close_loop cs e (Suc i) (length cs) (run_closer (cs ! k) e w)"
    using lt idx by (subst close_loop.simps) simp
  also have "\<dots> = foldl (\<lambda>w c. run_closer c e w) (run_closer (cs ! k) e w)
                     (rev (take (length cs - Suc i) cs))"
    using Suc.hyps(1) [of "Suc i"] k lt by simp
  finally show ?case using tk k by simp
qed

lemma close_loop_foldl:
  "close_loop cs e 0 (length cs) w = foldl (\<lambda>w c. run_closer c e w) w (rev cs)"
  using close_loop_from [of 0 cs e w] by simp

lemma Close_first:
  "\<not> once p \<Longrightarrow>
     Close p w = (closeResult (socket p), p\<lparr>once := True\<rparr>,
                  foldl (\<lambda>w c. run_closer c (closeResult (socket p)) w)
                        (emit DuplexClose w) (rev (closers p)))"
  by (simp add: Close_def DuplexRSocket_Close_def close_loop_foldl)

lemma Close_again: "once p \<Longrightarrow> Close p w = (None, p, w)"
  by (simp add: Close_def)

lemma Closes_again: "once p \<Longrightarrow> Closes k p w = (replicate k None, p, w)"
  by (induction k) (simp_all add: Close_again)

lemma fault_log_no_close: "count_list (fault_log e cs a) DuplexClose = 0"
  by (induction cs arbitrary: a) (simp_all split: outcome.splits)

text \<open>
  Claim C3. On a socket not yet closed, however many callers \<open>K\<close> call \<open>Close\<close>: the
  first gets the close error of the duplex socket and the others nil; the world is left
  as by a single call; the duplex socket is closed exactly once; the application state is
  the result of running every hook once, the last registered first, each with the close
  error; and one more \<open>Close\<close> changes nothing.
\<close>

theorem Close_exactly_once:
  assumes "\<not> once p" and "0 < K"
  shows "fst (Closes K p w) = closeResult (socket p) # replicate (K - 1) None
       \<and> fst (snd (Closes K p w)) = p\<lparr>once := True\<rparr>
       \<and> snd (snd (Closes K p w)) = snd (snd (Close p w))
       \<and> count_list (events (snd (snd (Closes K p w)))) DuplexClose
           = count_list (events w) DuplexClose + 1
       \<and> app (snd (snd (Closes K p w)))
           = foldl (\<lambda>a c. snd (call_closer c (closeResult (socket p)) a)) (app w) (rev (closers p))
       \<and> Close (fst (snd (Closes K p w))) (snd (snd (Closes K p w)))
           = (None, fst (snd (Closes K p w)), snd (snd (Closes K p w)))"
proof -
  define W where "W = foldl (\<lambda>w c. run_closer c (closeResult (socket p)) w)
                        (emit DuplexClose w) (rev (closers p))"
  from assms(2) obtain k where K: "K = Suc k" by (cases K) auto
  have one: "Close p w = (closeResult (socket p), p\<lparr>once := True\<rparr>, W)"
    using assms(1) unfolding W_def by (rule Close_first)
  have rest: "Closes k (p\<lparr>once := True\<rparr>) W = (replicate k None, p\<lparr>once := True\<rparr>, W)"
    by (rule Closes_again) simp
  have all: "Closes K p w = (closeResult (socket p) # replicate k None, p\<lparr>once := True\<rparr>, W)"
    using one rest K by simp
  have ev: "events W = events w @ DuplexClose # fault_log (closeResult (socket p)) (rev (closers p)) (app w)"
    unfolding W_def by (simp add: foldl_run_closer_events emit_def)
  have cnt: "count_list (events W) DuplexClose = count_list (events w) DuplexClose + 1"
    by (simp add: ev fault_log_no_close)
  have ap: "app W = foldl (\<lambda>a c. snd (call_closer c (closeResult (socket p)) a)) (app w) (rev (closers p))"
    unfolding W_def by (simp add: foldl_run_closer_app emit_def)
  have again: "Close (p\<lparr>once := True\<rparr>) W = (None, p\<lparr>once := True\<rparr>, W)"
    by (rule Close_again) simp
  show ?thesis using all one cnt ap again K by simp
qed

text \<open>
  Claim C3 with three callers on the socket with the hooks \<open>first\<close>, \<open>second\<close> and
  \<open>third\<close>, registered in this order.
\<close>

theorem Close_exactly_once_witness:
  "\<not> once example_socket \<and> (0::nat) < 3
   \<and> fst (Closes 3 example_socket example_world)
       = [Some (TransportError ''connection reset''), None, None]
   \<and> count_list (events (snd (snd (Closes 3 example_socket example_world)))) DuplexClose = 1
   \<and> app (snd (snd (Closes 3 example_socket example_world))) = [''third'', ''second'', ''first'']"
proof -
  have h: "\<not> once example_socket"
    by (simp add: example_socket_def OnClose_def newBaseSocket_def)
  have c: "closers example_socket
             = [Some (example_note ''first''), Some (example_faulty ''second''),
                Some (example_note ''third'')]"
    by (simp add: example_socket_def OnClose_def newBaseSocket_def)
  have s: "closeResult (socket example_socket) = Some (TransportError ''connection reset'')"
    by (simp add: example_socket_def OnClose_def newBaseSocket_def example_duplex_def)
  have k: "(0::nat) < 3" by simp
  note t = Close_exactly_once [OF h k, of example_world]
  have "fst (Closes 3 example_socket example_world)
          = closeResult (socket example_socket) # replicate (3 - 1) None"
    using t by (rule conjunct1)
  then have r: "fst (Closes 3 example_socket example_world)
                  = [Some (TransportError ''connection reset''), None, None]"
    by (simp add: s numeral_2_eq_2)
  have "count_list (events (snd (snd (Closes 3 example_socket example_world)))) DuplexClose
          = count_list (events example_world) DuplexClose + 1"
    using t by (elim conjE)
  then have n: "count_list (events (snd (snd (Closes 3 example_socket example_world)))) DuplexClose = 1"
    by (simp add: example_world_def)
  have "app (snd (snd (Closes 3 example_socket example_world)))
          = foldl (\<lambda>a c. snd (call_closer c (closeResult (socket example_socket)) a))
              (app example_world) (rev (closers example_socket))"
    using t by (elim conjE)
  then have a: "app (snd (snd (Closes 3 example_socket example_world)))
                  = [''third'', ''second'', ''first'']"
    by (simp add: c s example_world_def call_closer_def example_note_def example_faulty_def)
  show ?thesis using h k r n a by blast
qed

text \<open>
  Claim C6. On a socket not yet closed, whatever the hooks do: \<open>Close\<close> returns the
  close error of the duplex socket; every hook is run, the last registered first, whether
  or not a hook before it raised a fault; and after the close of the duplex socket the
  log holds one line for each fault, in the order the hooks ran.
\<close>

theorem Close_hook_fault_isolated:
  assumes "\<not> once p"
  shows "fst (Close p w) = closeResult (socket p)
       \<and> app (snd (snd (Close p w)))
           = foldl (\<lambda>a c. snd (call_closer c (closeResult (socket p)) a)) (app w) (rev (closers p))
       \<and> events (snd (snd (Close p w)))
           = events w @ DuplexClose # fault_log (closeResult (socket p)) (rev (closers p)) (app w)"
  using Close_first [OF assms, of w]
  by (simp add: foldl_run_closer_app foldl_run_closer_events emit_def)

text \<open>
  Claim C6 on the socket whose hook \<open>second\<close> raises a fault: \<open>first\<close>, registered
  before it, still runs, the fault is logged, and the close error is returned.
\<close>

theorem Close_hook_fault_isolated_witness:
  "\<not> once example_socket
   \<and> fst (Close example_socket example_world) = Some (TransportError ''connection reset'')
   \<and> app (snd (snd (Close example_socket example_world))) = [''third'', ''second'', ''first'']
   \<and> events (snd (snd (Close example_socket example_world)))
       = [DuplexClose, Errorf (''handle socket closer failed: boom'' @ [CHR 0x0A])]"
proof -
  have h: "\<not> once example_socket"
    by (simp add: example_socket_def OnClose_def newBaseSocket_def)
  have c: "closers example_socket
             = [Some (example_note ''first''), Some (example_faulty ''second''),
                Some (example_note ''third'')]"
    by (simp add: example_socket_def OnClose_def newBaseSocket_def)
  have s: "closeResult (socket example_socket) = Some (TransportError ''connection reset'')"
    by (simp add: example_socket_def OnClose_def newBaseSocket_def example_duplex_def)
  show ?thesis
    using h Close_hook_fault_isolated [OF h, of example_world]
    by (simp add: c s example_world_def call_closer_def example_note_def example_faulty_def)
qed

end
